theory Spec2Isabelle
  imports Complex_Main "HOL-Library.Word"
begin

section \<open>Strings\<close>

text \<open>
  A JavaScript string is modelled as a \<open>string\<close> (a list of \<open>char\<close>): each \<open>char\<close>
  stands for one code unit in the range U+0000 to U+00FF. An \<open>Error\<close> object is
  modelled by its message.
\<close>

type_synonym js_error = string

text \<open>
  The white space that \<open>String.prototype.trim\<close> and \<open>parseInt\<close> strip, within
  the modelled range of code units: TAB, LF, VT, FF, CR, SPACE and NBSP (U+00A0).
\<close>

definition is_ws :: "char \<Rightarrow> bool" where
  "is_ws c = (c \<in> set [CHR 0x09, CHR 0x0A, CHR 0x0B, CHR 0x0C, CHR 0x0D, CHR 0x20, CHR 0xA0])"

definition trim :: "string \<Rightarrow> string" where
  "trim s = rev (dropWhile is_ws (rev (dropWhile is_ws s)))"

section \<open>Numbers\<close>

text \<open>
  The numbers that \<open>parseInt\<close> returns are doubles: an integer-valued double, or an
  infinity, or \<open>NaN\<close>. \<open>Finite n\<close> is the double whose value is the integer \<open>n\<close>
  (\<open>-0\<close> is \<open>Finite 0\<close>: no operation of this program tells it from \<open>0\<close>);
  \<open>NaN\<close> is \<open>None\<close> of an option type where it can occur.
\<close>

datatype js_number = Finite int | PosInfinity | NegInfinity

text \<open>The number of binary digits of a positive integer.\<close>

function bit_length :: "int \<Rightarrow> nat" where
  "bit_length n = (if n \<le> 0 then 0 else Suc (bit_length (n div 2)))"
  by pat_completeness auto
termination
  by (relation "measure nat") auto

declare bit_length.simps [simp del]

text \<open>
  The double of an integer: the integer is rounded to 53 significant binary digits, to
  the nearest value and to the even one of two nearest values; a magnitude that rounds
  to 2^1024 or more gives an infinity.
\<close>

definition to_double :: "int \<Rightarrow> js_number" where
  "to_double i =
     (let m = \<bar>i\<bar>;
          e = bit_length m - 53;
          q = m div 2 ^ e;
          r = m mod 2 ^ e;
          q' = (if 2 ^ e < 2 * r \<or> (2 * r = 2 ^ e \<and> odd q) then q + 1 else q);
          m' = q' * 2 ^ e
      in if 2 ^ 1024 \<le> m' then (if i < 0 then NegInfinity else PosInfinity)
         else Finite (if i < 0 then - m' else m'))"

text \<open>The comparisons \<open>x < k\<close>, \<open>x >= k\<close> and \<open>x <= k\<close> of a number with an integer.\<close>

fun js_less :: "js_number \<Rightarrow> int \<Rightarrow> bool" where
  "js_less (Finite n) k = (n < k)"
| "js_less PosInfinity k = False"
| "js_less NegInfinity k = True"

fun js_less_eq :: "js_number \<Rightarrow> int \<Rightarrow> bool" where
  "js_less_eq (Finite n) k = (n \<le> k)"
| "js_less_eq PosInfinity k = False"
| "js_less_eq NegInfinity k = True"

definition js_greater_eq :: "js_number \<Rightarrow> int \<Rightarrow> bool" where
  "js_greater_eq x k = (\<not> js_less x k)"

section \<open>Objects\<close>

text \<open>
  A plain JavaScript object is modelled by the list of its own properties in the order
  in which \<open>Object.entries\<close> lists them: the keys that are array indices first, in
  ascending numeric order, then the other keys in the order of their creation.
  Assigning to an existing property keeps its place. The key \<open>__proto__\<close> is an
  accessor inherited from \<open>Object.prototype\<close>: assigning a string to it creates no
  property. The model assumes that \<open>Object.prototype\<close> itself carries no
  user-defined property.
\<close>

definition is_digit :: "char \<Rightarrow> bool" where
  "is_digit c = (c \<in> set ''0123456789'')"

definition digit_value :: "char \<Rightarrow> int" where
  "digit_value c = of_char c - 48"

definition decimal :: "string \<Rightarrow> int" where
  "decimal ds = foldl (\<lambda>n c. 10 * n + digit_value c) 0 ds"

definition array_index :: "string \<Rightarrow> int option" where
  "array_index k =
     (if k \<noteq> [] \<and> list_all is_digit k \<and> (k = ''0'' \<or> hd k \<noteq> CHR ''0'') \<and> decimal k < 4294967295
      then Some (decimal k) else None)"

definition key_before :: "string \<Rightarrow> string \<Rightarrow> bool" where
  "key_before k k' =
     (case array_index k of
        None \<Rightarrow> False
      | Some i \<Rightarrow> (case array_index k' of None \<Rightarrow> True | Some j \<Rightarrow> i < j))"

fun insert_key :: "(string \<times> 'v) list \<Rightarrow> string \<Rightarrow> 'v \<Rightarrow> (string \<times> 'v) list" where
  "insert_key [] k v = [(k, v)]"
| "insert_key ((k', v') # kvs) k v =
     (if key_before k k' then (k, v) # (k', v') # kvs else (k', v') # insert_key kvs k v)"

definition obj_set :: "(string \<times> 'v) list \<Rightarrow> string \<Rightarrow> 'v \<Rightarrow> (string \<times> 'v) list" where
  "obj_set ob k v =
     (if k = ''__proto__'' then ob
      else if k \<in> set (map fst ob)
        then map (\<lambda>(k', v'). if k' = k then (k', v) else (k', v')) ob
      else insert_key ob k v)"

definition obj_get :: "(string \<times> 'v) list \<Rightarrow> string \<Rightarrow> 'v option" where
  "obj_get ob k = map_of ob k"

definition obj_keys :: "(string \<times> 'v) list \<Rightarrow> string list" where
  "obj_keys ob = map fst ob"

section \<open>The CSV parser (class CSVParser)\<close>

subsection \<open>splitIntoLines\<close>

text \<open>
  \<open>content.split(/\r?\n|\r/)\<close>: the scan of \<open>String.prototype.split\<close> with a
  regular expression that never matches the empty string. At a CR the first
  alternative takes CR LF together when an LF follows; otherwise the second
  alternative takes the CR alone. The text after the last separator (possibly empty)
  is always emitted, so the result of \<open>split\<close> here is never the empty array.
\<close>

fun split_lines_from :: "string \<Rightarrow> string \<Rightarrow> string list" where
  "split_lines_from cur [] = [cur]"
| "split_lines_from cur (c # rest) =
     (if c = CHR 0x0D then
        (case rest of
           [] \<Rightarrow> cur # split_lines_from [] []
         | n # rest' \<Rightarrow>
             if n = CHR 0x0A then cur # split_lines_from [] rest'
             else cur # split_lines_from [] rest)
      else if c = CHR 0x0A then cur # split_lines_from [] rest
      else split_lines_from (cur @ [c]) rest)"

definition splitIntoLines :: "string \<Rightarrow> string list" where
  "splitIntoLines content = split_lines_from [] content"

subsection \<open>parseLine\<close>

text \<open>
  The \<open>for\<close> loop of \<open>parseLine\<close> over the characters that remain, with the three
  variables of the source as arguments: \<open>values\<close>, \<open>currentValue\<close> and
  \<open>insideQuotes\<close>. \<open>nextChar\<close> is the head of the rest (\<open>undefined\<close> at the end of
  the line, which is not a quote); the escaped quote skips it (\<open>i++\<close>).
\<close>

fun parseLine_loop :: "string list \<Rightarrow> string \<Rightarrow> bool \<Rightarrow> string \<Rightarrow> string list" where
  "parseLine_loop values currentValue insideQuotes [] = values @ [currentValue]"
| "parseLine_loop values currentValue insideQuotes (c # rest) =
     (if c = CHR 0x22 then
        (case rest of
           [] \<Rightarrow> parseLine_loop values currentValue (\<not> insideQuotes) rest
         | nextChar # rest' \<Rightarrow>
             if insideQuotes \<and> nextChar = CHR 0x22
             then parseLine_loop values (currentValue @ [CHR 0x22]) insideQuotes rest'
             else parseLine_loop values currentValue (\<not> insideQuotes) rest)
      else if c = CHR '','' \<and> \<not> insideQuotes then
        parseLine_loop (values @ [currentValue]) [] insideQuotes rest
      else parseLine_loop values (currentValue @ [c]) insideQuotes rest)"

definition parseLine :: "string \<Rightarrow> string list" where
  "parseLine line = parseLine_loop [] [] False line"

text \<open>\<open>fields.join(',')\<close>, the comma-joined line of a sequence of fields.\<close>

fun join_commas :: "string list \<Rightarrow> string" where
  "join_commas [] = []"
| "join_commas [f] = f"
| "join_commas (f # g # fs) = f @ CHR '','' # join_commas (g # fs)"

subsection \<open>parseCSVContent\<close>

type_synonym flat_record = "(string \<times> string) list"

text \<open>The arguments of one \<open>console.warn\<close> of \<open>parseCSVContent\<close>.\<close>

record warning =
  line_number :: nat
  found :: nat
  expected :: nat

text \<open>
  The inner loop over \<open>j\<close>: \<open>record[headers[j].trim()] = values[j].trim()\<close>. It runs
  only when both arrays have the same length.
\<close>

definition make_record :: "string list \<Rightarrow> string list \<Rightarrow> flat_record" where
  "make_record headers values =
     fold (\<lambda>(h, v) record. obj_set record (trim h) (trim v)) (zip headers values) []"

text \<open>
  The loop over the data lines, \<open>i\<close> being the index of the line in \<open>lines\<close>. The
  warnings printed on the console are collected beside the records.
\<close>

fun rows_loop ::
  "string list \<Rightarrow> nat \<Rightarrow> string list \<Rightarrow> flat_record list \<Rightarrow> warning list
     \<Rightarrow> flat_record list \<times> warning list" where
  "rows_loop headers i [] records warnings = (records, warnings)"
| "rows_loop headers i (raw # rest) records warnings =
     (let line = trim raw in
      if line = [] then rows_loop headers (i + 1) rest records warnings
      else
        let values = parseLine line in
        if length values \<noteq> length headers then
          rows_loop headers (i + 1) rest records
            (warnings @ [\<lparr>line_number = i + 1, found = length values, expected = length headers\<rparr>])
        else rows_loop headers (i + 1) rest (records @ [make_record headers values]) warnings)"

definition parseCSVContent :: "string \<Rightarrow> js_error + flat_record list \<times> warning list" where
  "parseCSVContent csvContent =
     (let lines = splitIntoLines csvContent in
      if length lines = 0 then Inl ''CSV file is empty''
      else
        let headers = parseLine (lines ! 0) in
        Inr (rows_loop headers 1 (drop 1 lines) [] []))"

text \<open>
  For the statement of the assembler's contract: the non-empty data lines of a
  content, trimmed and tokenized, each with its index in \<open>lines\<close>.
\<close>

definition header_row :: "string \<Rightarrow> string list" where
  "header_row csvContent = parseLine (hd (splitIntoLines csvContent))"

definition data_rows_from :: "nat \<Rightarrow> string list \<Rightarrow> (nat \<times> string list) list" where
  "data_rows_from i ls =
     map (\<lambda>(j, l). (j, parseLine (trim l))) (filter (\<lambda>(j, l). trim l \<noteq> []) (enumerate i ls))"

definition data_rows :: "string \<Rightarrow> (nat \<times> string list) list" where
  "data_rows csvContent = data_rows_from 1 (tl (splitIntoLines csvContent))"

definition skip_warning :: "string list \<Rightarrow> nat \<times> string list \<Rightarrow> warning" where
  "skip_warning headers r =
     \<lparr>line_number = fst r + 1, found = length (snd r), expected = length headers\<rparr>"

section \<open>The object builder (class ObjectBuilder)\<close>

text \<open>
  The values of a nested object built from a CSV record: a string, or a plain object.
  \<open>undefined\<close> (a missing property) and \<open>null\<close> are \<open>None\<close> of an option type.
\<close>

datatype jv = JStr string | JObj "(string \<times> jv) list"

fun truthy :: "jv \<Rightarrow> bool" where
  "truthy (JStr s) = (s \<noteq> [])"
| "truthy (JObj props) = True"

subsection \<open>Object.prototype\<close>



definition cannot_convert :: js_error where
  "cannot_convert = ''Cannot convert object to primitive value''"


text \<open>
  The conversion of a value to a string, as a template literal and \<open>parseInt\<close> apply
  it. An object is converted by its \<open>toString\<close> method: the built-in one returns
  \<open>[object Object]\<close>. A \<open>toString\<close> property assigned on the object or on
  \<open>Object.prototype\<close> holds a string or an object and cannot be called; then
  \<open>valueOf\<close> is tried, which returns no primitive value or cannot be called either,
  and the conversion throws a \<open>TypeError\<close>.
\<close>

fun to_string :: "(string \<times> jv) list \<Rightarrow> jv \<Rightarrow> js_error + string" where
  "to_string proto (JStr s) = Inr s"
| "to_string proto (JObj props) =
     (if ''toString'' \<in> set (obj_keys props) \<or> ''toString'' \<in> set (obj_keys proto)
      then Inl cannot_convert else Inr ''[object Object]'')"

subsection \<open>setNestedProperty\<close>








subsection \<open>buildNestedObject\<close>



subsection \<open>parseInt\<close>

text \<open>
  \<open>parseInt(string)\<close> without a radix: leading white space is skipped, then an
  optional sign, then the prefix \<open>0x\<close> or \<open>0X\<close> selects radix 16, then the longest
  run of digits of the radix is read; no digit gives \<open>NaN\<close> (\<open>None\<close>). The result
  is the double of the signed value of the digits; \<open>-0\<close> is not told from \<open>0\<close>, which
  the only caller replaces by \<open>0\<close> (\<open>parseInt(x) || 0\<close>).
\<close>

definition digit_of :: "char \<Rightarrow> int option" where
  "digit_of c =
     (let n = of_char c :: int in
      if 48 \<le> n \<and> n \<le> 57 then Some (n - 48)
      else if 97 \<le> n \<and> n \<le> 122 then Some (n - 87)
      else if 65 \<le> n \<and> n \<le> 90 then Some (n - 55)
      else None)"

definition radix_digit :: "int \<Rightarrow> char \<Rightarrow> int option" where
  "radix_digit R c = (case digit_of c of None \<Rightarrow> None | Some d \<Rightarrow> if d < R then Some d else None)"

definition parseInt_string :: "string \<Rightarrow> js_number option" where
  "parseInt_string inputString =
     (let s1 = dropWhile is_ws inputString;
          sign = (if s1 \<noteq> [] \<and> hd s1 = CHR ''-'' then - 1 else 1 :: int);
          s2 = (if s1 \<noteq> [] \<and> (hd s1 = CHR ''+'' \<or> hd s1 = CHR ''-'') then tl s1 else s1);
          hex = (take 2 s2 = ''0x'' \<or> take 2 s2 = ''0X'');
          R = (if hex then 16 else 10);
          s3 = (if hex then drop 2 s2 else s2);
          ds = takeWhile (\<lambda>c. radix_digit R c \<noteq> None) s3
      in if ds = [] then None
         else Some (to_double (sign * foldl (\<lambda>n c. R * n + the (radix_digit R c)) 0 ds)))"

text \<open>
  \<open>parseInt(v)\<close>: the value is converted to a string first, \<open>undefined\<close> to
  \<open>"undefined"\<close>, which has no digit.
\<close>

definition parseInt :: "(string \<times> jv) list \<Rightarrow> jv option \<Rightarrow> js_error + js_number option" where
  "parseInt proto v =
     (case v of
        None \<Rightarrow> Inr None
      | Some x \<Rightarrow> (case to_string proto x of Inl e \<Rightarrow> Inl e | Inr s \<Rightarrow> Inr (parseInt_string s)))"

subsection \<open>separateMandatoryFields\<close>

record persistable_user =
  name :: string
  age :: js_number
  address :: "jv option"
  additional_info :: "jv option"





subsection \<open>Paths and nesting\<close>




definition begins_with :: "string list \<Rightarrow> string list \<Rightarrow> bool" where
  "begins_with qs ks = (take (length ks) qs = ks)"

definition unrelated :: "string list \<Rightarrow> string list \<Rightarrow> bool" where
  "unrelated ks qs = (\<not> begins_with qs ks \<and> \<not> begins_with ks qs)"






fun unprintable :: "jv option \<Rightarrow> bool" where
  "unprintable (Some (JObj q)) = (''toString'' \<in> set (obj_keys q))"
| "unprintable _ = False"

fun age_of :: "jv option \<Rightarrow> js_number" where
  "age_of (Some (JStr s)) = (case parseInt_string s of None \<Rightarrow> Finite 0 | Some x \<Rightarrow> x)"
| "age_of _ = Finite 0"


section \<open>The user service (class UserService)\<close>

subsection \<open>The database client\<close>

text \<open>
  The statements that the service sends through \<open>client.query\<close>: the three
  transaction commands, the single-row \<open>INSERT\<close> with its four parameters, and the
  \<open>INSERT ... SELECT * FROM UNNEST\<close> with its four parallel arrays. A document
  parameter is carried as the value that \<open>JSON.stringify\<close> serialises.
\<close>

datatype stmt =
    Begin
  | Commit
  | Rollback
  | InsertRow string js_number "jv option" "jv option"
  | InsertUnnest "string list" "js_number list" "jv option list" "jv option list"

text \<open>
  The client is a parameter of the service: \<open>query db st\<close> is the state of the
  storage engine after the statement \<open>st\<close>, with either the message of the error
  that rejects the promise (\<open>Inl\<close>) or the \<open>rowCount\<close> of the result (\<open>Inr\<close>).
  Acquiring and releasing the client are not modelled.
\<close>

type_synonym 'db client = "'db \<Rightarrow> stmt \<Rightarrow> 'db \<times> (js_error + nat)"

record row_error =
  user :: string
  error :: string

record insert_result =
  success :: bool
  inserted :: nat
  failed :: nat
  errors :: "row_error list option"

text \<open>\<open>x ? JSON.stringify(x) : null\<close>.\<close>

definition json_param :: "jv option \<Rightarrow> jv option" where
  "json_param x = (case x of None \<Rightarrow> None | Some v \<Rightarrow> if truthy v then Some v else None)"

definition insert_stmt :: "persistable_user \<Rightarrow> stmt" where
  "insert_stmt u = InsertRow (name u) (age u) (json_param (address u)) (json_param (additional_info u))"

text \<open>
  The \<open>catch\<close> block of both insert functions: \<open>ROLLBACK\<close>, then the new error is
  thrown. An error of the \<open>ROLLBACK\<close> itself leaves the block in its place.
\<close>

definition rollback_and_throw :: "'db client \<Rightarrow> 'db \<Rightarrow> string \<Rightarrow> js_error \<Rightarrow> 'db \<times> (js_error + 'a)" where
  "rollback_and_throw query db prefix message =
     (case query db Rollback of
        (db', Inl m) \<Rightarrow> (db', Inl m)
      | (db', Inr n) \<Rightarrow> (db', Inl (prefix @ message)))"

subsection \<open>batchInsertUsers\<close>

text \<open>The \<open>for (const user of users)\<close> loop with its inner \<open>try\<close>/\<open>catch\<close>.\<close>

fun insert_loop ::
  "'db client \<Rightarrow> 'db \<Rightarrow> persistable_user list \<Rightarrow> nat \<Rightarrow> nat \<Rightarrow> row_error list
     \<Rightarrow> 'db \<times> nat \<times> nat \<times> row_error list" where
  "insert_loop query db [] insertedCount failedCount errs = (db, insertedCount, failedCount, errs)"
| "insert_loop query db (u # rest) insertedCount failedCount errs =
     (case query db (insert_stmt u) of
        (db', Inr n) \<Rightarrow> insert_loop query db' rest (insertedCount + 1) failedCount errs
      | (db', Inl message) \<Rightarrow>
          insert_loop query db' rest insertedCount (failedCount + 1)
            (errs @ [\<lparr>user = name u, error = message\<rparr>]))"

definition batchInsertUsers ::
  "'db client \<Rightarrow> 'db \<Rightarrow> persistable_user list \<Rightarrow> 'db \<times> (js_error + insert_result)" where
  "batchInsertUsers query db users =
     (case query db Begin of
        (db1, Inl m) \<Rightarrow> rollback_and_throw query db1 ''Batch insert failed: '' m
      | (db1, Inr n) \<Rightarrow>
          (case insert_loop query db1 users 0 0 [] of
             (db2, insertedCount, failedCount, errs) \<Rightarrow>
               (case query db2 Commit of
                  (db3, Inl m) \<Rightarrow> rollback_and_throw query db3 ''Batch insert failed: '' m
                | (db3, Inr n') \<Rightarrow>
                    (db3, Inr \<lparr>success = True,
                               inserted = insertedCount,
                               failed = failedCount,
                               errors = (if length errs > 0 then Some errs else None)\<rparr>))))"

subsection \<open>optimizedBatchInsert\<close>

definition chunkSize :: nat where
  "chunkSize = 1000"

text \<open>The four arrays that the \<open>forEach\<close> over one chunk builds.\<close>

definition unnest_stmt :: "persistable_user list \<Rightarrow> stmt" where
  "unnest_stmt chunk =
     InsertUnnest (map name chunk) (map age chunk)
       (map (\<lambda>u. json_param (address u)) chunk)
       (map (\<lambda>u. json_param (additional_info u)) chunk)"

text \<open>
  The loop \<open>for (let i = 0; i < users.length; i += chunkSize)\<close>; an error of a
  chunk's statement leaves the loop.
\<close>

function chunk_loop ::
  "'db client \<Rightarrow> 'db \<Rightarrow> persistable_user list \<Rightarrow> nat \<Rightarrow> nat \<Rightarrow> 'db \<times> (js_error + nat)" where
  "chunk_loop query db users i totalInserted =
     (if i < length users then
        (let chunk = take chunkSize (drop i users) in
         case query db (unnest_stmt chunk) of
           (db', Inl m) \<Rightarrow> (db', Inl m)
         | (db', Inr rowCount) \<Rightarrow> chunk_loop query db' users (i + chunkSize) (totalInserted + rowCount))
      else (db, Inr totalInserted))"
  by pat_completeness auto
termination
  by (relation "measure (\<lambda>(query, db, users, i, totalInserted). length users - i)")
     (auto simp: chunkSize_def)

declare chunk_loop.simps [simp del]

definition optimizedBatchInsert ::
  "'db client \<Rightarrow> 'db \<Rightarrow> persistable_user list \<Rightarrow> 'db \<times> (js_error + insert_result)" where
  "optimizedBatchInsert query db users =
     (case query db Begin of
        (db1, Inl m) \<Rightarrow> rollback_and_throw query db1 ''Optimized batch insert failed: '' m
      | (db1, Inr n) \<Rightarrow>
          (case chunk_loop query db1 users 0 0 of
             (db2, Inl m) \<Rightarrow> rollback_and_throw query db2 ''Optimized batch insert failed: '' m
           | (db2, Inr totalInserted) \<Rightarrow>
               (case query db2 Commit of
                  (db3, Inl m) \<Rightarrow> rollback_and_throw query db3 ''Optimized batch insert failed: '' m
                | (db3, Inr n') \<Rightarrow>
                    (db3, Inr \<lparr>success = True,
                               inserted = totalInserted,
                               failed = 0,
                               errors = None\<rparr>))))"

subsection \<open>The storage engine\<close>

text \<open>
  Modelled from the spec: the storage engine is an external collaborator of the
  service, a single table with transactions and a columnar-to-row bulk insert
  (sections 4.5 and 6 of the specification). The engine holds the committed rows of the
  table, the rows written by the open transaction (if one is open), and the statements
  it has received. Its column constraints are the parameter \<open>rejects\<close>, which gives the
  error message for a row the table refuses. A refused statement writes nothing and
  leaves the open transaction usable; a bulk insert is refused as a whole when one
  of its rows is.
\<close>

type_synonym table_row = "string \<times> js_number \<times> jv option \<times> jv option"

record store =
  committed :: "table_row list"
  pending :: "table_row list option"
  received :: "stmt list"

definition add_rows :: "store \<Rightarrow> table_row list \<Rightarrow> store" where
  "add_rows s rows =
     (case pending s of
        None \<Rightarrow> s\<lparr>committed := committed s @ rows\<rparr>
      | Some p \<Rightarrow> s\<lparr>pending := Some (p @ rows)\<rparr>)"

definition insert_rows :: "(table_row \<Rightarrow> string option) \<Rightarrow> store \<Rightarrow> table_row list \<Rightarrow> store \<times> (js_error + nat)" where
  "insert_rows rejects s rows =
     (case List.map_filter rejects rows of
        [] \<Rightarrow> (add_rows s rows, Inr (length rows))
      | m # ms \<Rightarrow> (s, Inl m))"

fun store_exec :: "(table_row \<Rightarrow> string option) \<Rightarrow> store \<Rightarrow> stmt \<Rightarrow> store \<times> (js_error + nat)" where
  "store_exec rejects s Begin =
     ((case pending s of None \<Rightarrow> s\<lparr>pending := Some []\<rparr> | Some p \<Rightarrow> s), Inr 0)"
| "store_exec rejects s Commit =
     ((case pending s of
         None \<Rightarrow> s
       | Some p \<Rightarrow> s\<lparr>committed := committed s @ p, pending := None\<rparr>), Inr 0)"
| "store_exec rejects s Rollback = (s\<lparr>pending := None\<rparr>, Inr 0)"
| "store_exec rejects s (InsertRow n a ad ai) = insert_rows rejects s [(n, a, ad, ai)]"
| "store_exec rejects s (InsertUnnest ns as ads ais) =
     insert_rows rejects s (zip ns (zip as (zip ads ais)))"

definition store_query :: "(table_row \<Rightarrow> string option) \<Rightarrow> store client" where
  "store_query rejects s st = store_exec rejects (s\<lparr>received := received s @ [st]\<rparr>) st"

definition row_of :: "persistable_user \<Rightarrow> table_row" where
  "row_of u = (name u, age u, json_param (address u), json_param (additional_info u))"

subsection \<open>The answers of the engine\<close>

text \<open>
  For the statement of the service's contract: the answers that the engine gives to the
  single-row inserts of a sequence of users, sent one after the other from the state
  \<open>db\<close>, with the state after the last; and the error entries that belong to the
  refused ones.
\<close>

fun row_answers :: "'db client \<Rightarrow> 'db \<Rightarrow> persistable_user list \<Rightarrow> (js_error + nat) list \<times> 'db" where
  "row_answers query db [] = ([], db)"
| "row_answers query db (u # us) =
     (case query db (insert_stmt u) of
        (db', r) \<Rightarrow> (case row_answers query db' us of (rs, db'') \<Rightarrow> (r # rs, db'')))"

definition row_errors :: "persistable_user list \<Rightarrow> (js_error + nat) list \<Rightarrow> row_error list" where
  "row_errors users rs =
     map (\<lambda>(u, r). \<lparr>user = name u, error = projl r\<rparr>) (filter (\<lambda>(u, r). isl r) (zip users rs))"

definition accepted :: "(table_row \<Rightarrow> string option) \<Rightarrow> persistable_user \<Rightarrow> bool" where
  "accepted rejects u = (rejects (row_of u) = None)"

definition refusal :: "(table_row \<Rightarrow> string option) \<Rightarrow> persistable_user \<Rightarrow> row_error" where
  "refusal rejects u = \<lparr>user = name u, error = the (rejects (row_of u))\<rparr>"

text \<open>
  The slices that \<open>optimizedBatchInsert\<close> takes from its input, and those of them
  that precede the first slice with a row that the table refuses.
\<close>

function chunks :: "'a list \<Rightarrow> 'a list list" where
  "chunks xs = (if xs = [] then [] else take chunkSize xs # chunks (drop chunkSize xs))"
  by pat_completeness auto
termination
  by (relation "measure length") (auto simp: chunkSize_def)

declare chunks.simps [simp del]

definition ok_chunks :: "(table_row \<Rightarrow> string option) \<Rightarrow> persistable_user list \<Rightarrow> persistable_user list list" where
  "ok_chunks rejects xs = takeWhile (list_all (accepted rejects)) (chunks xs)"

definition first_refusal :: "(table_row \<Rightarrow> string option) \<Rightarrow> persistable_user list \<Rightarrow> string" where
  "first_refusal rejects xs = hd (List.map_filter rejects (map row_of xs))"

section \<open>The age distribution (class AgeDistribution)\<close>

text \<open>
  The \<open>age\<close> property of a user record. In a row of \<open>SELECT age FROM users\<close> it is
  a number that holds a 32-bit integer, the column being \<open>age INT NOT NULL\<close>;
  \<open>calculate\<close> also meets \<open>null\<close> and text, which other callers can pass.
\<close>

datatype column = Null | IntCol "32 word" | TextCol string

record user_row =
  row_age :: column

text \<open>
  \<open>parseInt(user.age)\<close>: the argument is converted to a string first. \<open>null\<close> gives
  \<open>"null"\<close>, which has no digit; a 32-bit integer gives its decimal numeral, which is
  read back as the same integer.
\<close>

fun parseInt_column :: "column \<Rightarrow> js_number option" where
  "parseInt_column Null = None"
| "parseInt_column (IntCol n) = Some (Finite (sint n))"
| "parseInt_column (TextCol s) = parseInt_string s"

text \<open>The chain of comparisons that selects the group of an age.\<close>

definition age_group :: "js_number \<Rightarrow> string" where
  "age_group a =
     (if js_less a 20 then ''<20''
      else if js_greater_eq a 20 \<and> js_less a 40 then ''20-40''
      else if js_greater_eq a 40 \<and> js_less_eq a 60 then ''40-60''
      else ''>60'')"

type_synonym distribution = "(string \<times> nat) list"

definition zero_distribution :: distribution where
  "zero_distribution = [(''<20'', 0), (''20-40'', 0), (''40-60'', 0), (''>60'', 0)]"

text \<open>\<open>distribution[group]++\<close>.\<close>

definition increment :: "string \<Rightarrow> distribution \<Rightarrow> distribution" where
  "increment g d = map (\<lambda>(k, n). if k = g then (k, n + 1) else (k, n)) d"

text \<open>The callback of \<open>users.forEach\<close>; the warning on the console is not modelled.\<close>

definition count_user :: "user_row \<Rightarrow> distribution \<Rightarrow> distribution" where
  "count_user u d =
     (case parseInt_column (row_age u) of
        None \<Rightarrow> d
      | Some a \<Rightarrow> increment (age_group a) d)"

text \<open>
  The result of \<open>calculate\<close> has two shapes: the bare counts, or the object with
  \<open>counts\<close>, \<open>percentages\<close> and \<open>total\<close>. A percentage is held as the exact
  quotient \<open>count / total * 100\<close>; its rendering with two decimals by \<open>toFixed\<close>
  is not modelled.
\<close>

datatype report =
    Flat distribution
  | Wrapped (counts: distribution) (percentages: "(string \<times> rat) list") (total: nat)

definition calculate :: "user_row list \<Rightarrow> report" where
  "calculate users =
     (let total = length users in
      if total = 0 then Flat zero_distribution
      else
        let distribution = fold count_user users zero_distribution;
            percentages = map (\<lambda>(g, c). (g, (of_nat c / of_nat total) * 100)) distribution
        in Wrapped distribution percentages total)"

subsection \<open>Counting by group\<close>

text \<open>
  For the statement of the reporter's contract: the number of users whose age parses
  and falls into the group \<open>g\<close>.
\<close>

definition group_count :: "string \<Rightarrow> user_row list \<Rightarrow> nat" where
  "group_count g users =
     length (filter (\<lambda>u. map_option age_group (parseInt_column (row_age u)) = Some g) users)"

definition percent_of :: "nat \<Rightarrow> nat \<Rightarrow> rat" where
  "percent_of c t = (of_nat c / of_nat t) * 100"

section \<open>Properties of objects\<close>

lemma map_of_insert_key:
  "k \<notin> set (map fst ob) \<Longrightarrow> map_of (insert_key ob k v) k' = (if k' = k then Some v else map_of ob k')"
  by (induction ob) auto

lemma map_of_replace:
  "map_of (map (\<lambda>(k', v'). if k' = k then (k', v) else (k', v')) ob) k'
     = (if k' = k then map_option (\<lambda>_. v) (map_of ob k) else map_of ob k')"
  by (induction ob) auto

lemma obj_get_set:
  "k \<noteq> ''__proto__'' \<Longrightarrow> obj_get (obj_set ob k v) k' = (if k' = k then Some v else obj_get ob k')"
proof (cases "k \<in> set (map fst ob)")
  case True
  then obtain w where "map_of ob k = Some w"
    by (metis map_of_eq_None_iff not_Some_eq set_map)
  then show "k \<noteq> ''__proto__'' \<Longrightarrow> ?thesis"
    using True by (simp add: obj_get_def obj_set_def map_of_replace)
next
  case False
  then show "k \<noteq> ''__proto__'' \<Longrightarrow> ?thesis"
    by (simp add: obj_get_def obj_set_def map_of_insert_key)
qed

lemma obj_get_set_proto: "obj_set ob ''__proto__'' v = ob"
  by (simp add: obj_set_def)

lemma set_insert_key: "set (insert_key ob k v) = insert (k, v) (set ob)"
  by (induction ob) (auto split: if_splits)

lemma set_keys_insert_key: "fst ` set (insert_key ob k v) = insert k (fst ` set ob)"
  by (simp add: set_insert_key)

lemma set_keys_obj_set: "set (obj_keys (obj_set ob k v)) \<subseteq> insert k (set (obj_keys ob))"
  unfolding obj_keys_def obj_set_def
  by (auto simp: set_keys_insert_key split: if_splits)





section \<open>Properties of the CSV parser\<close>

lemma plain_field:
  "CHR '','' \<notin> set f \<Longrightarrow> CHR 0x22 \<notin> set f \<Longrightarrow>
   parseLine_loop vs cur inq (f @ rest) = parseLine_loop vs (cur @ f) inq rest"
  by (induction f arbitrary: cur) auto

lemma joined_fields:
  "flds \<noteq> [] \<Longrightarrow> \<forall>f\<in>set flds. CHR '','' \<notin> set f \<and> CHR 0x22 \<notin> set f \<Longrightarrow>
   parseLine_loop vs cur False (join_commas flds) = vs @ [cur @ hd flds] @ tl flds"
proof (induction flds arbitrary: vs cur rule: join_commas.induct)
  case 1
  then show ?case by simp
next
  case (2 f)
  then show ?case using plain_field [of f vs cur False "[]"] by simp
next
  case (3 f g fs)
  from "3.prems" have pf: "CHR '','' \<notin> set f" "CHR 0x22 \<notin> set f"
    and rest: "\<forall>f\<in>set (g # fs). CHR '','' \<notin> set f \<and> CHR 0x22 \<notin> set f"
    by simp_all
  have "parseLine_loop vs cur False (join_commas (f # g # fs))
      = parseLine_loop vs (cur @ f) False (CHR '','' # join_commas (g # fs))"
    using plain_field [OF pf, of vs cur False "CHR '','' # join_commas (g # fs)"] by simp
  also have "\<dots> = parseLine_loop (vs @ [cur @ f]) [] False (join_commas (g # fs))"
    by simp
  also have "\<dots> = (vs @ [cur @ f]) @ [[] @ g] @ fs"
    using "3.IH" [of "vs @ [cur @ f]" "[]"] rest by simp
  finally show ?case by simp
qed

lemma split_lines_from_nonempty: "split_lines_from cur s \<noteq> []"
  by (induction cur s rule: split_lines_from.induct) (auto split: list.splits)

lemma rows_loop_eq:
  "rows_loop headers i ls records warnings =
     (records @ map (\<lambda>r. make_record headers (snd r))
        (filter (\<lambda>r. length (snd r) = length headers) (data_rows_from i ls)),
      warnings @ map (skip_warning headers)
        (filter (\<lambda>r. length (snd r) \<noteq> length headers) (data_rows_from i ls)))"
proof (induction ls arbitrary: i records warnings)
  case Nil
  then show ?case by (simp add: data_rows_from_def)
next
  case (Cons raw rest)
  have step: "data_rows_from i (raw # rest) =
      (if trim raw = [] then [] else [(i, parseLine (trim raw))]) @ data_rows_from (Suc i) rest"
    by (simp add: data_rows_from_def)
  show ?case
    unfolding step by (simp add: Cons.IH Let_def skip_warning_def)
qed

lemma make_record_get_aux:
  "length hs = length vs \<Longrightarrow> trim (hs ! j) \<noteq> ''__proto__'' \<Longrightarrow> j < length hs \<Longrightarrow>
   trim (hs ! j) \<notin> set (map trim (drop (Suc j) hs)) \<Longrightarrow>
   obj_get (fold (\<lambda>(h, v) record. obj_set record (trim h) (trim v)) (zip hs vs) acc) (trim (hs ! j))
     = Some (trim (vs ! j))"
proof (induction hs vs arbitrary: acc j rule: list_induct2)
  case Nil
  then show ?case by simp
next
  case (Cons h hs v vs)
  show ?case
  proof (cases j)
    case 0
    have keep: "k \<notin> set (map trim hs') \<Longrightarrow> length hs' = length vs' \<Longrightarrow>
        obj_get (fold (\<lambda>(h, v) record. obj_set record (trim h) (trim v)) (zip hs' vs') acc') k
          = obj_get acc' k" for k hs' vs' acc'
    proof (induction hs' arbitrary: vs' acc')
      case Nil then show ?case by simp
    next
      case (Cons a hs')
      then obtain b vs'' where vs': "vs' = b # vs''" by (cases vs') auto
      show ?case
      proof (cases "trim a = ''__proto__''")
        case True
        then show ?thesis using Cons vs' by (simp add: obj_get_set_proto)
      next
        case False
        then show ?thesis using Cons vs' by (simp add: obj_get_set)
      qed
    qed
    from 0 Cons.prems Cons.hyps show ?thesis
      by (simp add: keep obj_get_set)
  next
    case (Suc j')
    with Cons.prems Cons.IH [of j' "obj_set acc (trim h) (trim v)"] show ?thesis by simp
  qed
qed

lemma make_record_keys_aux:
  "set (obj_keys (fold (\<lambda>(h, v) record. obj_set record (trim h) (trim v)) hvs acc))
     \<subseteq> set (obj_keys acc) \<union> set (map (trim \<circ> fst) hvs)"
proof (induction hvs arbitrary: acc)
  case Nil
  then show ?case by simp
next
  case (Cons hv hvs)
  obtain h v where hv: "hv = (h, v)" by (cases hv)
  from Cons.IH [of "obj_set acc (trim h) (trim v)"] set_keys_obj_set [of acc "trim h" "trim v"]
  show ?case unfolding hv by auto
qed

lemma make_record_keys: "set (obj_keys (make_record hs vs)) \<subseteq> set (map trim hs)"
proof -
  have "set (map (trim \<circ> fst) (zip hs vs)) \<subseteq> set (map trim hs)"
    by (auto dest: set_zip_leftD)
  with make_record_keys_aux [of "zip hs vs" "[]"] show ?thesis
    by (auto simp: make_record_def obj_keys_def)
qed

lemma parseCSVContent_eq:
  "parseCSVContent csvContent =
     Inr (map (\<lambda>r. make_record (header_row csvContent) (snd r))
            (filter (\<lambda>r. length (snd r) = length (header_row csvContent)) (data_rows csvContent)),
          map (skip_warning (header_row csvContent))
            (filter (\<lambda>r. length (snd r) \<noteq> length (header_row csvContent)) (data_rows csvContent)))"
proof (cases "splitIntoLines csvContent")
  case Nil
  then show ?thesis using split_lines_from_nonempty [of "[]" csvContent]
    by (simp add: splitIntoLines_def)
next
  case (Cons l ls)
  then show ?thesis
    by (simp add: parseCSVContent_def header_row_def data_rows_def rows_loop_eq Let_def)
qed

text \<open>
  C6. For every non-empty sequence of fields none of which contains a comma or a
  double quote, \<open>parseLine\<close> applied to the comma-joined line returns the fields.
\<close>

theorem parseLine_roundtrip:
  "flds \<noteq> [] \<Longrightarrow> \<forall>f\<in>set flds. CHR '','' \<notin> set f \<and> CHR 0x22 \<notin> set f \<Longrightarrow>
   parseLine (join_commas flds) = flds"
  using joined_fields [of flds "[]" "[]"] by (simp add: parseLine_def)

theorem parseLine_roundtrip_witness:
  "parseLine (join_commas [''John'', '' 25 '', [], ''a.b'']) = [''John'', '' 25 '', [], ''a.b'']"
  using parseLine_roundtrip [of "[''John'', '' 25 '', [], ''a.b'']"] by simp

text \<open>
  C3. Empty content does not make \<open>parseCSVContent\<close> fail. \<open>splitIntoLines\<close> of the
  empty content is the one empty line, so the guard \<open>lines.length === 0\<close> in front of
  \<open>throw new Error('CSV file is empty')\<close> does not fire: the parser returns no record
  and no error. The guard fires on no content at all.
\<close>

theorem parseCSVContent_empty_content:
  "splitIntoLines [] = [[]] \<and> parseCSVContent [] = Inr ([], [])
   \<and> (\<forall>csvContent e. parseCSVContent csvContent \<noteq> Inl e)"
proof -
  have "parseCSVContent [] = Inr ([], [])"
    by (simp add: parseCSVContent_def splitIntoLines_def)
  moreover have "\<forall>csvContent e. parseCSVContent csvContent \<noteq> Inl e"
    by (simp add: parseCSVContent_eq)
  ultimately show ?thesis by (simp add: splitIntoLines_def)
qed

text \<open>
  C7. \<open>parseCSVContent\<close> never fails on a row: its records are the records of the
  data rows whose number of fields is the header's, in order, and every other data row
  gives one warning and no record. The record of a matching row maps the trimmed header
  field \<open>j\<close> to the trimmed value field \<open>j\<close> (when the same trimmed header occurs
  again in a later column, the later column's value is the one kept; the header
  \<open>__proto__\<close> names no property), and it has no key besides the trimmed headers.
\<close>

theorem parseCSVContent_rows:
  "parseCSVContent csvContent =
     Inr (map (\<lambda>r. make_record (header_row csvContent) (snd r))
            (filter (\<lambda>r. length (snd r) = length (header_row csvContent)) (data_rows csvContent)),
          map (skip_warning (header_row csvContent))
            (filter (\<lambda>r. length (snd r) \<noteq> length (header_row csvContent)) (data_rows csvContent)))
   \<and> (length vs = length hs \<and> j < length hs \<and> trim (hs ! j) \<noteq> ''__proto__''
        \<and> trim (hs ! j) \<notin> set (map trim (drop (Suc j) hs))
      \<longrightarrow> obj_get (make_record hs vs) (trim (hs ! j)) = Some (trim (vs ! j)))
   \<and> set (obj_keys (make_record hs vs)) \<subseteq> set (map trim hs)"
  using parseCSVContent_eq [of csvContent] make_record_get_aux [of hs vs j "[]"]
    make_record_keys [of hs vs]
  by (simp add: make_record_def)

theorem parseCSVContent_rows_witness:
  "parseCSVContent (''a,b,c'' @ [CHR 0x0A] @ ''1,2'' @ [CHR 0x0A] @ '' 1, 2 ,3''
       @ [CHR 0x0D, CHR 0x0A, CHR 0x0A] @ ''x,y,z,w'')
     = Inr ([[(''a'', ''1''), (''b'', ''2''), (''c'', ''3'')]],
            [\<lparr>line_number = 2, found = 2, expected = 3\<rparr>,
             \<lparr>line_number = 5, found = 4, expected = 3\<rparr>])
   \<and> obj_get (make_record [''a'', '' b '', ''c''] ['' 1'', ''2 '', ''3'']) ''b'' = Some ''2''"
proof -
  have rows: "parseCSVContent (''a,b,c'' @ [CHR 0x0A] @ ''1,2'' @ [CHR 0x0A] @ '' 1, 2 ,3''
       @ [CHR 0x0D, CHR 0x0A, CHR 0x0A] @ ''x,y,z,w'')
     = Inr ([[(''a'', ''1''), (''b'', ''2''), (''c'', ''3'')]],
            [\<lparr>line_number = 2, found = 2, expected = 3\<rparr>,
             \<lparr>line_number = 5, found = 4, expected = 3\<rparr>])"
    by code_simp
  have tb: "trim '' b '' = ''b''" and t2: "trim ''2 '' = ''2''" and tc: "trim ''c'' = ''c''"
    by (simp_all add: trim_def is_ws_def)
  have hyp: "length ['' 1'', ''2 '', ''3''] = length [''a'', '' b '', ''c'']
      \<and> 1 < length [''a'', '' b '', ''c'']
      \<and> trim ([''a'', '' b '', ''c''] ! 1) \<noteq> ''__proto__''
      \<and> trim ([''a'', '' b '', ''c''] ! 1) \<notin> set (map trim (drop (Suc 1) [''a'', '' b '', ''c'']))"
    by (simp add: tb tc)
  from parseCSVContent_rows [of "''a,b,c'' @ [CHR 0x0A] @ ''1,2'' @ [CHR 0x0A] @ '' 1, 2 ,3''
       @ [CHR 0x0D, CHR 0x0A, CHR 0x0A] @ ''x,y,z,w''" "['' 1'', ''2 '', ''3'']" "[''a'', '' b '', ''c'']" 1] hyp
  have "obj_get (make_record [''a'', '' b '', ''c''] ['' 1'', ''2 '', ''3''])
          (trim ([''a'', '' b '', ''c''] ! 1)) = Some (trim (['' 1'', ''2 '', ''3''] ! 1))"
    by blast
  then have "obj_get (make_record [''a'', '' b '', ''c''] ['' 1'', ''2 '', ''3'']) ''b'' = Some ''2''"
    by (simp add: tb t2)
  with rows show ?thesis by simp
qed

section \<open>Properties of the object builder\<close>










lemma begins_with_Nil [simp]: "begins_with qs []"
  by (simp add: begins_with_def)

lemma begins_with_Nil_left [simp]: "begins_with [] ks \<longleftrightarrow> ks = []"
  by (auto simp: begins_with_def)


lemma unrelated_Nil [simp]: "\<not> unrelated [] qs" "\<not> unrelated ks []"
  by (simp_all add: unrelated_def)

lemma unrelated_sym: "unrelated ks qs \<longleftrightarrow> unrelated qs ks"
  by (auto simp: unrelated_def)























subsection \<open>The field separator\<close>



lemma parseInt_object: "parseInt_string ''[object Object]'' = None"
  by code_simp




lemma age_clean:
  "\<not> unprintable x \<Longrightarrow> parseInt [] x = Inr parsed \<Longrightarrow>
   (case parsed of None \<Rightarrow> Finite 0 | Some y \<Rightarrow> if y = Finite 0 then Finite 0 else y) = age_of x"
proof (cases x)
  case None
  then show "parseInt [] x = Inr parsed \<Longrightarrow> ?thesis" by (auto simp: parseInt_def)
next
  case (Some w)
  then show "\<not> unprintable x \<Longrightarrow> parseInt [] x = Inr parsed \<Longrightarrow> ?thesis"
    by (cases w) (auto simp: parseInt_def parseInt_object obj_keys_def split: option.splits if_splits)
qed







subsection \<open>parseInt on digit strings\<close>










subsection \<open>The builder, then the separator\<close>








section \<open>Properties of the user service\<close>

lemma row_answers_length: "row_answers query db users = (rs, db') \<Longrightarrow> length rs = length users"
  by (induction users arbitrary: db rs) (auto split: prod.splits)

lemma insert_loop_answers:
  "row_answers query db users = (rs, db') \<Longrightarrow>
   insert_loop query db users i f es =
     (db', i + length (filter (\<lambda>r. \<not> isl r) rs), f + length (filter isl rs),
      es @ row_errors users rs)"
proof (induction users arbitrary: db db' rs i f es)
  case Nil
  then show ?case by (simp add: row_errors_def)
next
  case (Cons u us)
  obtain db1 r where q: "query db (insert_stmt u) = (db1, r)"
    by (cases "query db (insert_stmt u)")
  obtain rs' db2 where a: "row_answers query db1 us = (rs', db2)"
    by (cases "row_answers query db1 us")
  from Cons.prems q a have rs: "rs = r # rs'" and db': "db' = db2"
    by simp_all
  show ?case
  proof (cases r)
    case (Inl m)
    then show ?thesis
      using q Cons.IH [OF a, of i "f + 1" "es @ [\<lparr>user = name u, error = m\<rparr>]"]
      by (simp add: rs db' row_errors_def)
  next
    case (Inr n)
    then show ?thesis
      using q Cons.IH [OF a, of "i + 1" f es]
      by (simp add: rs db' row_errors_def)
  qed
qed

lemma filter_split_length:
  "length (filter (\<lambda>r. \<not> P r) rs) + length (filter P rs) = length rs"
  by (induction rs) auto

lemma batchInsertUsers_answers:
  assumes "query db Begin = (db1, Inr b)"
    and "row_answers query db1 users = (rs, db2)"
    and "query db2 Commit = (db3, Inr c)"
  shows "batchInsertUsers query db users =
     (db3, Inr \<lparr>success = True,
                inserted = length (filter (\<lambda>r. \<not> isl r) rs),
                failed = length (filter isl rs),
                errors = (if row_errors users rs = [] then None else Some (row_errors users rs))\<rparr>)"
  using assms insert_loop_answers [OF assms(2), of 0 0 "[]"]
  by (simp add: batchInsertUsers_def)

lemma single_refusal:
  assumes len: "length rs = length users" and k: "k < length rs" and at: "rs ! k = Inl m"
    and others: "\<forall>j<length rs. j \<noteq> k \<longrightarrow> \<not> isl (rs ! j)"
  shows "filter isl rs = [Inl m]" and "row_errors users rs = [\<lparr>user = name (users ! k), error = m\<rparr>]"
proof -
  have before: "\<forall>r\<in>set (take k rs). \<not> isl r"
  proof
    fix r assume "r \<in> set (take k rs)"
    then obtain j where "j < k" "j < length rs" "r = rs ! j"
      by (auto simp: in_set_conv_nth)
    with others show "\<not> isl r" by auto
  qed
  have after: "\<forall>r\<in>set (drop (Suc k) rs). \<not> isl r"
  proof
    fix r assume "r \<in> set (drop (Suc k) rs)"
    then obtain j where j: "j < length rs - Suc k" and r: "r = rs ! (Suc k + j)"
      by (auto simp: in_set_conv_nth)
    from j have "Suc k + j < length rs" "Suc k + j \<noteq> k" by simp_all
    with others r show "\<not> isl r" by blast
  qed
  have rs: "rs = take k rs @ Inl m # drop (Suc k) rs"
    using id_take_nth_drop [OF k] at by simp
  have us: "users = take k users @ users ! k # drop (Suc k) users"
    using id_take_nth_drop [of k users] k len by simp
  have f1: "filter isl (take k rs) = []" and f2: "filter isl (drop (Suc k) rs) = []"
    using before after by (simp_all add: filter_empty_conv)
  show "filter isl rs = [Inl m]"
    by (subst rs) (simp add: f1 f2)
  have z1: "filter (\<lambda>(u, r). isl r) (zip (take k users) (take k rs)) = []"
    using before by (auto simp: filter_empty_conv dest: set_zip_rightD)
  have z2: "filter (\<lambda>(u, r). isl r) (zip (drop (Suc k) users) (drop (Suc k) rs)) = []"
    using after by (auto simp: filter_empty_conv dest: set_zip_rightD)
  have "zip users rs = zip (take k users) (take k rs) @ (users ! k, Inl m)
      # zip (drop (Suc k) users) (drop (Suc k) rs)"
    by (subst us, subst rs) (simp add: len)
  then show "row_errors users rs = [\<lparr>user = name (users ! k), error = m\<rparr>]"
    by (simp add: row_errors_def z1 z2)
qed

lemma store_insert_loop:
  "pending s = Some p \<Longrightarrow>
   insert_loop (store_query rejects) s users i f es =
     (s\<lparr>pending := Some (p @ map row_of (filter (accepted rejects) users)),
        received := received s @ map insert_stmt users\<rparr>,
      i + length (filter (accepted rejects) users),
      f + length (filter (\<lambda>u. \<not> accepted rejects u) users),
      es @ map (refusal rejects) (filter (\<lambda>u. \<not> accepted rejects u) users))"
proof (induction users arbitrary: s p i f es)
  case Nil
  then show ?case by simp
next
  case (Cons u us)
  show ?case
  proof (cases "rejects (row_of u)")
    case None
    let ?s = "s\<lparr>received := received s @ [insert_stmt u], pending := Some (p @ [row_of u])\<rparr>"
    have q: "store_query rejects s (insert_stmt u) = (?s, Inr 1)"
      using None Cons.prems
      by (simp add: store_query_def insert_stmt_def insert_rows_def add_rows_def row_of_def
          List.map_filter_simps)
    have p: "pending ?s = Some (p @ [row_of u])" by simp
    show ?thesis
      using None Cons.IH [OF p, of "i + 1" f es] q
      by (simp add: accepted_def)
  next
    case (Some m)
    let ?s = "s\<lparr>received := received s @ [insert_stmt u]\<rparr>"
    have q: "store_query rejects s (insert_stmt u) = (?s, Inl m)"
      using Some Cons.prems
      by (simp add: store_query_def insert_stmt_def insert_rows_def add_rows_def row_of_def
          List.map_filter_simps)
    have p: "pending ?s = Some p" using Cons.prems by simp
    show ?thesis
      using Some Cons.IH [OF p, of i "f + 1" "es @ [refusal rejects u]"] q
      by (simp add: accepted_def refusal_def)
  qed
qed

lemma store_batchInsertUsers:
  "batchInsertUsers (store_query rejects) \<lparr>committed = tbl, pending = None, received = lg\<rparr> users =
     (\<lparr>committed = tbl @ map row_of (filter (accepted rejects) users),
       pending = None,
       received = lg @ [Begin] @ map insert_stmt users @ [Commit]\<rparr>,
      Inr \<lparr>success = True,
           inserted = length (filter (accepted rejects) users),
           failed = length (filter (\<lambda>u. \<not> accepted rejects u) users),
           errors = (if filter (\<lambda>u. \<not> accepted rejects u) users = [] then None
                     else Some (map (refusal rejects) (filter (\<lambda>u. \<not> accepted rejects u) users)))\<rparr>)"
proof -
  let ?s1 = "\<lparr>committed = tbl, pending = Some [], received = lg @ [Begin]\<rparr>"
  have b: "store_query rejects \<lparr>committed = tbl, pending = None, received = lg\<rparr> Begin = (?s1, Inr 0)"
    by (simp add: store_query_def)
  have p: "pending ?s1 = Some []" by simp
  show ?thesis
    unfolding batchInsertUsers_def b
    by (simp add: store_insert_loop [OF p] store_query_def)
qed

text \<open>
  C1. In \<open>batchInsertUsers\<close>, whatever the engine: when \<open>BEGIN\<close> and \<open>COMMIT\<close> succeed,
  every user's insert is sent, each from the state that the previous one left, refused
  or not; the function returns after the \<open>COMMIT\<close> with the number of inserts that
  succeeded, the number that were refused, and one entry with the user's name and the
  engine's message for each refused one, in order. With 10 users and exactly one insert
  refused, that is 9 inserted, 1 failed and the one entry of that user. On the storage
  engine of the specification, where a refused row leaves the transaction usable, the
  accepted rows are exactly the rows committed.
\<close>

theorem batchInsertUsers_row_failures:
  "(query db Begin = (db1, Inr b) \<and> row_answers query db1 users = (rs, db2)
      \<and> query db2 Commit = (db3, Inr c)
    \<longrightarrow> batchInsertUsers query db users =
          (db3, Inr \<lparr>success = True,
                     inserted = length (filter (\<lambda>r. \<not> isl r) rs),
                     failed = length (filter isl rs),
                     errors = (if row_errors users rs = [] then None
                               else Some (row_errors users rs))\<rparr>)
        \<and> length (filter (\<lambda>r. \<not> isl r) rs) + length (filter isl rs) = length users
        \<and> (length users = 10 \<and> k < 10 \<and> rs ! k = Inl m \<and> (\<forall>j<10. j \<noteq> k \<longrightarrow> \<not> isl (rs ! j))
           \<longrightarrow> batchInsertUsers query db users =
                 (db3, Inr \<lparr>success = True, inserted = 9, failed = 1,
                            errors = Some [\<lparr>user = name (users ! k), error = m\<rparr>]\<rparr>)))
   \<and> batchInsertUsers (store_query rejects) \<lparr>committed = tbl, pending = None, received = lg\<rparr> us =
       (\<lparr>committed = tbl @ map row_of (filter (accepted rejects) us),
         pending = None,
         received = lg @ [Begin] @ map insert_stmt us @ [Commit]\<rparr>,
        Inr \<lparr>success = True,
             inserted = length (filter (accepted rejects) us),
             failed = length (filter (\<lambda>u. \<not> accepted rejects u) us),
             errors = (if filter (\<lambda>u. \<not> accepted rejects u) us = [] then None
                       else Some (map (refusal rejects) (filter (\<lambda>u. \<not> accepted rejects u) us)))\<rparr>)"
proof (intro conjI impI)
  assume h: "query db Begin = (db1, Inr b) \<and> row_answers query db1 users = (rs, db2)
      \<and> query db2 Commit = (db3, Inr c)"
  then show "batchInsertUsers query db users =
          (db3, Inr \<lparr>success = True,
                     inserted = length (filter (\<lambda>r. \<not> isl r) rs),
                     failed = length (filter isl rs),
                     errors = (if row_errors users rs = [] then None
                               else Some (row_errors users rs))\<rparr>)"
    using batchInsertUsers_answers [of query db db1 b users rs db2 db3 c] by simp
next
  assume h: "query db Begin = (db1, Inr b) \<and> row_answers query db1 users = (rs, db2)
      \<and> query db2 Commit = (db3, Inr c)"
  then have "length rs = length users"
    using row_answers_length [of query db1 users rs db2] by simp
  then show "length (filter (\<lambda>r. \<not> isl r) rs) + length (filter isl rs) = length users"
    using filter_split_length [of isl rs] by simp
next
  assume h: "query db Begin = (db1, Inr b) \<and> row_answers query db1 users = (rs, db2)
      \<and> query db2 Commit = (db3, Inr c)"
    and one: "length users = 10 \<and> k < 10 \<and> rs ! k = Inl m \<and> (\<forall>j<10. j \<noteq> k \<longrightarrow> \<not> isl (rs ! j))"
  from h have len: "length rs = length users"
    using row_answers_length [of query db1 users rs db2] by simp
  with one have k: "k < length rs" and at: "rs ! k = Inl m"
    and others: "\<forall>j<length rs. j \<noteq> k \<longrightarrow> \<not> isl (rs ! j)"
    by simp_all
  note single = single_refusal [OF len k at others]
  have "length (filter (\<lambda>r. \<not> isl r) rs) + length (filter isl rs) = 10"
    using filter_split_length [of isl rs] len one by simp
  then have nine: "length (filter (\<lambda>r. \<not> isl r) rs) = 9"
    by (simp add: single(1))
  show "batchInsertUsers query db users =
                 (db3, Inr \<lparr>success = True, inserted = 9, failed = 1,
                            errors = Some [\<lparr>user = name (users ! k), error = m\<rparr>]\<rparr>)"
    using h batchInsertUsers_answers [of query db db1 b users rs db2 db3 c]
    by (simp add: single nine)
next
  show "batchInsertUsers (store_query rejects) \<lparr>committed = tbl, pending = None, received = lg\<rparr> us =
       (\<lparr>committed = tbl @ map row_of (filter (accepted rejects) us),
         pending = None,
         received = lg @ [Begin] @ map insert_stmt us @ [Commit]\<rparr>,
        Inr \<lparr>success = True,
             inserted = length (filter (accepted rejects) us),
             failed = length (filter (\<lambda>u. \<not> accepted rejects u) us),
             errors = (if filter (\<lambda>u. \<not> accepted rejects u) us = [] then None
                       else Some (map (refusal rejects) (filter (\<lambda>u. \<not> accepted rejects u) us)))\<rparr>)"
    by (rule store_batchInsertUsers)
qed

theorem batchInsertUsers_row_failures_witness:
  "batchInsertUsers (store_query (\<lambda>r. if fst (snd r) = Finite (- 1) then Some ''age_check'' else None))
     \<lparr>committed = [], pending = None, received = []\<rparr>
     (map (\<lambda>(n, a). \<lparr>name = n, age = Finite a, address = None, additional_info = None\<rparr>)
        [(''u0'', 1), (''u1'', 2), (''u2'', 3), (''u3'', - 1), (''u4'', 5),
         (''u5'', 6), (''u6'', 7), (''u7'', 8), (''u8'', 9), (''u9'', 10)])
   = (\<lparr>committed =
          map (\<lambda>(n, a). (n, Finite a, None, None))
            [(''u0'', 1), (''u1'', 2), (''u2'', 3), (''u4'', 5),
             (''u5'', 6), (''u6'', 7), (''u7'', 8), (''u8'', 9), (''u9'', 10)],
        pending = None,
        received =
          Begin # map (\<lambda>(n, a). InsertRow n (Finite a) None None)
            [(''u0'', 1), (''u1'', 2), (''u2'', 3), (''u3'', - 1), (''u4'', 5),
             (''u5'', 6), (''u6'', 7), (''u7'', 8), (''u8'', 9), (''u9'', 10)] @ [Commit]\<rparr>,
      Inr \<lparr>success = True, inserted = 9, failed = 1,
           errors = Some [\<lparr>user = ''u3'', error = ''age_check''\<rparr>]\<rparr>)"
proof -
  let ?query = "store_query (\<lambda>r. if fst (snd r) = Finite (- 1) then Some ''age_check'' else None)"
  let ?users = "map (\<lambda>(n, a). \<lparr>name = n, age = Finite a, address = None, additional_info = None\<rparr>)
        [(''u0'', 1), (''u1'', 2), (''u2'', 3), (''u3'', - 1), (''u4'', 5),
         (''u5'', 6), (''u6'', 7), (''u7'', 8), (''u8'', 9), (''u9'', 10)]"
  let ?rs = "[Inr 1, Inr 1, Inr 1, Inl ''age_check'', Inr 1, Inr 1, Inr 1, Inr 1, Inr 1, Inr (1::nat)]"
  let ?db = "\<lparr>committed = [], pending = None, received = []\<rparr>"
  let ?db1 = "\<lparr>committed = [], pending = Some [], received = [Begin]\<rparr>"
  let ?db2 = "\<lparr>committed = [],
        pending = Some (map (\<lambda>(n, a). (n, Finite a, None, None))
            [(''u0'', 1), (''u1'', 2), (''u2'', 3), (''u4'', 5),
             (''u5'', 6), (''u6'', 7), (''u7'', 8), (''u8'', 9), (''u9'', 10)]),
        received = Begin # map (\<lambda>(n, a). InsertRow n (Finite a) None None)
            [(''u0'', 1), (''u1'', 2), (''u2'', 3), (''u3'', - 1), (''u4'', 5),
             (''u5'', 6), (''u6'', 7), (''u7'', 8), (''u8'', 9), (''u9'', 10)]\<rparr>"
  let ?db3 = "\<lparr>committed =
          map (\<lambda>(n, a). (n, Finite a, None, None))
            [(''u0'', 1), (''u1'', 2), (''u2'', 3), (''u4'', 5),
             (''u5'', 6), (''u6'', 7), (''u7'', 8), (''u8'', 9), (''u9'', 10)],
        pending = None,
        received =
          Begin # map (\<lambda>(n, a). InsertRow n (Finite a) None None)
            [(''u0'', 1), (''u1'', 2), (''u2'', 3), (''u3'', - 1), (''u4'', 5),
             (''u5'', 6), (''u6'', 7), (''u7'', 8), (''u8'', 9), (''u9'', 10)] @ [Commit]\<rparr>"
  have b: "?query ?db Begin = (?db1, Inr 0)"
    by (simp add: store_query_def)
  have a: "row_answers ?query ?db1 ?users = (?rs, ?db2)"
    by code_simp
  have c: "?query ?db2 Commit = (?db3, Inr 0)"
    by (simp add: store_query_def)
  have one: "length ?users = 10 \<and> 3 < (10::nat) \<and> ?rs ! 3 = Inl ''age_check''
      \<and> (\<forall>j<10. j \<noteq> 3 \<longrightarrow> \<not> isl (?rs ! j))"
    by (simp add: nth_Cons' All_less_Suc numeral_eq_Suc)
  have u3: "name (?users ! 3) = ''u3''"
    by (simp add: nth_Cons' numeral_eq_Suc)
  from b a c have h: "?query ?db Begin = (?db1, Inr 0) \<and> row_answers ?query ?db1 ?users = (?rs, ?db2)
      \<and> ?query ?db2 Commit = (?db3, Inr 0)"
    by (intro conjI)
  note T = batchInsertUsers_row_failures [of ?query ?db ?db1 0 ?users ?rs ?db2 ?db3 0 3 "''age_check''",
      THEN conjunct1]
  note R = mp [OF mp [OF T h, THEN conjunct2, THEN conjunct2] one]
  show ?thesis
    using R by (simp only: u3)
qed

lemma zip_rows:
  "zip (map name ch) (zip (map age ch)
     (zip (map (\<lambda>u. json_param (address u)) ch) (map (\<lambda>u. json_param (additional_info u)) ch)))
   = map row_of ch"
  by (induction ch) (simp_all add: row_of_def)

lemma map_filter_append: "List.map_filter f (xs @ ys) = List.map_filter f xs @ List.map_filter f ys"
  by (simp add: List.map_filter_def)

lemma map_filter_accepted:
  "list_all (accepted rejects) xs \<Longrightarrow> List.map_filter rejects (map row_of xs) = []"
  by (induction xs) (simp_all add: List.map_filter_simps accepted_def)

lemma map_filter_refused:
  "\<not> list_all (accepted rejects) xs \<Longrightarrow> List.map_filter rejects (map row_of xs) \<noteq> []"
  by (induction xs) (auto simp: List.map_filter_simps accepted_def split: option.splits)

lemma store_unnest_accepted:
  "list_all (accepted rejects) ch \<Longrightarrow>
   store_query rejects \<lparr>committed = tbl, pending = Some p, received = lg\<rparr> (unnest_stmt ch) =
     (\<lparr>committed = tbl, pending = Some (p @ map row_of ch), received = lg @ [unnest_stmt ch]\<rparr>,
      Inr (length ch))"
  by (simp add: store_query_def unnest_stmt_def zip_rows insert_rows_def add_rows_def
      map_filter_accepted)

lemma store_unnest_refused:
  "\<not> list_all (accepted rejects) ch \<Longrightarrow>
   store_query rejects \<lparr>committed = tbl, pending = Some p, received = lg\<rparr> (unnest_stmt ch) =
     (\<lparr>committed = tbl, pending = Some p, received = lg @ [unnest_stmt ch]\<rparr>,
      Inl (first_refusal rejects ch))"
  using map_filter_refused [of rejects ch]
  by (simp add: store_query_def unnest_stmt_def zip_rows insert_rows_def first_refusal_def
      split: list.splits)

lemma first_refusal_append:
  "list_all (accepted rejects) xs \<Longrightarrow> first_refusal rejects (xs @ ys) = first_refusal rejects ys"
  by (simp add: first_refusal_def map_filter_append map_filter_accepted)

lemma first_refusal_prefix:
  "\<not> list_all (accepted rejects) xs \<Longrightarrow> first_refusal rejects (xs @ ys) = first_refusal rejects xs"
  using map_filter_refused [of rejects xs]
  by (simp add: first_refusal_def map_filter_append)

lemma list_all_take_drop:
  "list_all P xs = (list_all P (take n xs) \<and> list_all P (drop n xs))"
  using list_all_append [of P "take n xs" "drop n xs"] by simp

lemma store_chunk_loop:
  "drop i users = xs \<Longrightarrow>
   chunk_loop (store_query rejects) \<lparr>committed = tbl, pending = Some p, received = lg\<rparr> users i t =
     (if list_all (accepted rejects) xs
      then (\<lparr>committed = tbl, pending = Some (p @ map row_of xs),
             received = lg @ map unnest_stmt (chunks xs)\<rparr>, Inr (t + length xs))
      else (\<lparr>committed = tbl, pending = Some (p @ map row_of (concat (ok_chunks rejects xs))),
             received = lg @ map unnest_stmt (take (Suc (length (ok_chunks rejects xs))) (chunks xs))\<rparr>,
            Inl (first_refusal rejects xs)))"
proof (induction xs arbitrary: i p lg t rule: chunks.induct)
  case (1 xs)
  show ?case
  proof (cases "xs = []")
    case True
    with "1.prems" have "\<not> i < length users" by simp
    then show ?thesis using True
      by (subst chunk_loop.simps) (simp add: chunks.simps [of "[]"])
  next
    case False
    with "1.prems" have i: "i < length users" by auto
    let ?ch = "take chunkSize xs" and ?rest = "drop chunkSize xs"
    have ch: "take chunkSize (drop i users) = ?ch" using "1.prems" by simp
    have rest: "drop (i + chunkSize) users = ?rest"
      using "1.prems" drop_drop [of chunkSize i users] by (simp add: add.commute)
    have xs: "xs = ?ch @ ?rest" by simp
    have cs: "chunks xs = ?ch # chunks ?rest"
      using False by (subst chunks.simps) simp
    show ?thesis
    proof (cases "list_all (accepted rejects) ?ch")
      case ok: True
      note IH = "1.IH" [OF False rest, of "p @ map row_of ?ch" "lg @ [unnest_stmt ?ch]" "t + length ?ch"]
      have all: "list_all (accepted rejects) xs = list_all (accepted rejects) ?rest"
        using ok list_all_take_drop [of "accepted rejects" xs chunkSize] by simp
      have rows: "map row_of ?ch @ map row_of ?rest = map row_of xs"
        by (simp flip: map_append)
      have len: "length ?ch + length ?rest = length xs"
        by simp
      have oks: "ok_chunks rejects xs = ?ch # ok_chunks rejects ?rest"
        using ok by (simp add: ok_chunks_def cs)
      have fr: "first_refusal rejects xs = first_refusal rejects ?rest"
        using first_refusal_append [OF ok, of ?rest] by simp
      have cc: "map row_of ?ch @ map row_of (concat (ok_chunks rejects ?rest))
          = map row_of (concat (ok_chunks rejects xs))"
        by (simp add: oks)
      show ?thesis
        apply (subst chunk_loop.simps)
        apply (simp only: i if_True Let_def ch store_unnest_accepted [OF ok] prod.case sum.case IH)
        apply (simp only: all fr flip: cc rows len)
        apply (simp add: cs oks)
        done
    next
      case bad: False
      have all: "\<not> list_all (accepted rejects) xs"
        using bad list_all_take_drop [of "accepted rejects" xs chunkSize] by simp
      have oks: "ok_chunks rejects xs = []"
        using bad by (simp add: ok_chunks_def cs)
      have fr: "first_refusal rejects xs = first_refusal rejects ?ch"
        using first_refusal_prefix [OF bad, of ?rest] by simp
      show ?thesis
        apply (subst chunk_loop.simps)
        apply (simp only: i if_True Let_def ch store_unnest_refused [OF bad] prod.case sum.case)
        apply (simp add: all oks fr cs)
        done
    qed
  qed
qed

lemma concat_chunks: "concat (chunks xs) = xs"
proof (induction xs rule: chunks.induct)
  case (1 xs)
  then show ?case by (subst chunks.simps) simp
qed

lemma ceil_step: "0 < (n::nat) \<Longrightarrow> Suc ((n - 1000 + 999) div 1000) = (n + 999) div 1000"
proof (cases "1000 \<le> n")
  case True
  then obtain m where n: "n = m + 1000"
    by (metis le_add_diff_inverse2)
  show ?thesis
    unfolding n by simp
next
  case False
  assume "0 < n"
  with False have "(n + 999) div 1000 = 1"
    by (intro div_nat_eqI) simp_all
  with False show ?thesis by simp
qed

lemma length_chunks: "length (chunks xs) = (length xs + 999) div 1000"
proof (induction xs rule: chunks.induct)
  case (1 xs)
  show ?case
  proof (cases "xs = []")
    case True
    then show ?thesis by (subst chunks.simps) simp
  next
    case False
    then have pos: "0 < length xs" by simp
    have "length (chunks xs) = Suc (length (chunks (drop chunkSize xs)))"
      using False by (subst chunks.simps) simp
    also have "\<dots> = Suc ((length xs - 1000 + 999) div 1000)"
      using "1.IH" [OF False] by (simp only: length_drop chunkSize_def)
    also have "\<dots> = (length xs + 999) div 1000"
      using pos by (rule ceil_step)
    finally show ?thesis .
  qed
qed

lemma chunks_nth:
  "j < length (chunks xs) \<Longrightarrow> chunks xs ! j = take 1000 (drop (j * 1000) xs)"
proof (induction xs arbitrary: j rule: chunks.induct)
  case (1 xs)
  show ?case
  proof (cases "xs = []")
    case True
    with "1.prems" show ?thesis by (simp add: chunks.simps [of "[]"])
  next
    case False
    then have cs: "chunks xs = take chunkSize xs # chunks (drop chunkSize xs)"
      by (subst chunks.simps) simp
    show ?thesis
    proof (cases j)
      case 0
      then show ?thesis by (simp add: cs chunkSize_def)
    next
      case (Suc j')
      with "1.prems" cs have "j' < length (chunks (drop chunkSize xs))" by simp
      from "1.IH" [OF False this] Suc show ?thesis
        by (simp add: cs chunkSize_def add.commute)
    qed
  qed
qed

text \<open>
  C2. On the storage engine of the specification, \<open>optimizedBatchInsert\<close> sends
  \<open>BEGIN\<close>, then one bulk insert for each slice of 1000 users in order. When the table
  accepts every row, it sends \<open>COMMIT\<close>: all rows are committed and the result reports
  their number as \<open>inserted\<close>, 0 as \<open>failed\<close> and no errors. When a slice holds a row
  that the table refuses, the bulk insert of that slice is the last one sent, then
  \<open>ROLLBACK\<close>: the table is as it was before the call, and the call fails with the
  engine's message, returning no result and so no list of errors.
\<close>

theorem optimizedBatchInsert_atomic:
  "optimizedBatchInsert (store_query rejects) \<lparr>committed = tbl, pending = None, received = lg\<rparr> users =
     (if list_all (accepted rejects) users
      then (\<lparr>committed = tbl @ map row_of users, pending = None,
             received = lg @ [Begin] @ map unnest_stmt (chunks users) @ [Commit]\<rparr>,
            Inr \<lparr>success = True, inserted = length users, failed = 0, errors = None\<rparr>)
      else (\<lparr>committed = tbl, pending = None,
             received = lg @ [Begin]
               @ map unnest_stmt (take (Suc (length (ok_chunks rejects users))) (chunks users))
               @ [Rollback]\<rparr>,
            Inl (''Optimized batch insert failed: '' @ first_refusal rejects users)))
   \<and> chunkSize = 1000
   \<and> concat (chunks users) = users
   \<and> length (chunks users) = (length users + 999) div 1000
   \<and> (\<forall>j<length (chunks users). chunks users ! j = take 1000 (drop (j * 1000) users))"
proof -
  have b: "store_query rejects \<lparr>committed = tbl, pending = None, received = lg\<rparr> Begin
      = (\<lparr>committed = tbl, pending = Some [], received = lg @ [Begin]\<rparr>, Inr 0)"
    by (simp add: store_query_def)
  have "drop 0 users = users" by simp
  note loop = store_chunk_loop [OF this, of rejects tbl "[]" "lg @ [Begin]" 0]
  have main: "optimizedBatchInsert (store_query rejects)
      \<lparr>committed = tbl, pending = None, received = lg\<rparr> users =
     (if list_all (accepted rejects) users
      then (\<lparr>committed = tbl @ map row_of users, pending = None,
             received = lg @ [Begin] @ map unnest_stmt (chunks users) @ [Commit]\<rparr>,
            Inr \<lparr>success = True, inserted = length users, failed = 0, errors = None\<rparr>)
      else (\<lparr>committed = tbl, pending = None,
             received = lg @ [Begin]
               @ map unnest_stmt (take (Suc (length (ok_chunks rejects users))) (chunks users))
               @ [Rollback]\<rparr>,
            Inl (''Optimized batch insert failed: '' @ first_refusal rejects users)))"
    unfolding optimizedBatchInsert_def b
    by (simp add: loop store_query_def rollback_and_throw_def)
  show ?thesis
    using main concat_chunks [of users] length_chunks [of users] chunks_nth [of _ users]
    by (simp add: chunkSize_def)
qed

theorem optimizedBatchInsert_atomic_witness:
  "length (replicate 5000 \<lparr>name = ''g'', age = Finite 1, address = None, additional_info = None\<rparr>
        @ [\<lparr>name = ''b'', age = Finite (- 1), address = None, additional_info = None\<rparr>]
        @ replicate 999 \<lparr>name = ''g'', age = Finite 1, address = None, additional_info = None\<rparr>) = 6000
   \<and> committed (fst (optimizedBatchInsert
        (store_query (\<lambda>r. if fst (snd r) = Finite (- 1) then Some ''age_check'' else None))
        \<lparr>committed = [(''old'', Finite 7, None, None)], pending = None, received = []\<rparr>
        (replicate 5000 \<lparr>name = ''g'', age = Finite 1, address = None, additional_info = None\<rparr>
          @ [\<lparr>name = ''b'', age = Finite (- 1), address = None, additional_info = None\<rparr>]
          @ replicate 999 \<lparr>name = ''g'', age = Finite 1, address = None, additional_info = None\<rparr>)))
       = [(''old'', Finite 7, None, None)]
   \<and> snd (optimizedBatchInsert
        (store_query (\<lambda>r. if fst (snd r) = Finite (- 1) then Some ''age_check'' else None))
        \<lparr>committed = [(''old'', Finite 7, None, None)], pending = None, received = []\<rparr>
        (replicate 5000 \<lparr>name = ''g'', age = Finite 1, address = None, additional_info = None\<rparr>
          @ [\<lparr>name = ''b'', age = Finite (- 1), address = None, additional_info = None\<rparr>]
          @ replicate 999 \<lparr>name = ''g'', age = Finite 1, address = None, additional_info = None\<rparr>))
       = Inl ''Optimized batch insert failed: age_check''"
proof -
  let ?rj = "\<lambda>r :: table_row. if fst (snd r) = Finite (- 1) then Some ''age_check'' else None"
  let ?g = "\<lparr>name = ''g'', age = Finite 1, address = None, additional_info = None\<rparr>"
  let ?b = "\<lparr>name = ''b'', age = Finite (- 1), address = None, additional_info = None\<rparr>"
  let ?users = "replicate 5000 ?g @ [?b] @ replicate 999 ?g"
  have g: "accepted ?rj ?g" and b: "\<not> accepted ?rj ?b"
    by (simp_all add: accepted_def row_of_def)
  have pre: "list_all (accepted ?rj) (replicate 5000 ?g)"
    using g by (simp add: list_all_iff)
  have bad: "\<not> list_all (accepted ?rj) [?b]"
    using b by simp
  have no: "\<not> list_all (accepted ?rj) ?users"
    using b by simp
  have "first_refusal ?rj ?users = first_refusal ?rj ([?b] @ replicate 999 ?g)"
    by (rule first_refusal_append [OF pre])
  also have "\<dots> = first_refusal ?rj [?b]"
    by (rule first_refusal_prefix [OF bad])
  also have "\<dots> = ''age_check''"
    by (simp add: first_refusal_def row_of_def json_param_def List.map_filter_simps)
  finally have msg: "first_refusal ?rj ?users = ''age_check''" .
  note T = optimizedBatchInsert_atomic [of ?rj "[(''old'', Finite 7, None, None)]" "[]" ?users,
      THEN conjunct1]
  have len: "length ?users = 6000" by simp
  from T no msg len show ?thesis
    by (simp del: replicate_append_same)
qed

section \<open>Properties of the age distribution\<close>

lemma age_group_cases:
  "age_group a = ''<20'' \<or> age_group a = ''20-40'' \<or> age_group a = ''40-60'' \<or> age_group a = ''>60''"
  by (simp add: age_group_def)

lemma fold_count_user:
  "fold count_user users [(''<20'', a), (''20-40'', b), (''40-60'', c), (''>60'', d)] =
     [(''<20'', a + group_count ''<20'' users),
      (''20-40'', b + group_count ''20-40'' users),
      (''40-60'', c + group_count ''40-60'' users),
      (''>60'', d + group_count ''>60'' users)]"
proof (induction users arbitrary: a b c d)
  case Nil
  then show ?case by (simp add: group_count_def)
next
  case (Cons u users)
  show ?case
  proof (cases "parseInt_column (row_age u)")
    case None
    then show ?thesis
      using Cons.IH [of a b c d] by (simp add: count_user_def group_count_def)
  next
    case (Some x)
    from age_group_cases [of x] show ?thesis
    proof (elim disjE)
      assume g: "age_group x = ''<20''"
      then show ?thesis using Some Cons.IH [of "a + 1" b c d]
        by (simp add: count_user_def group_count_def increment_def)
    next
      assume g: "age_group x = ''20-40''"
      then show ?thesis using Some Cons.IH [of a "b + 1" c d]
        by (simp add: count_user_def group_count_def increment_def)
    next
      assume g: "age_group x = ''40-60''"
      then show ?thesis using Some Cons.IH [of a b "c + 1" d]
        by (simp add: count_user_def group_count_def increment_def)
    next
      assume g: "age_group x = ''>60''"
      then show ?thesis using Some Cons.IH [of a b c "d + 1"]
        by (simp add: count_user_def group_count_def increment_def)
    qed
  qed
qed

lemma calculate_eq:
  "calculate users =
     (if users = [] then Flat [(''<20'', 0), (''20-40'', 0), (''40-60'', 0), (''>60'', 0)]
      else Wrapped
        [(''<20'', group_count ''<20'' users),
         (''20-40'', group_count ''20-40'' users),
         (''40-60'', group_count ''40-60'' users),
         (''>60'', group_count ''>60'' users)]
        [(''<20'', percent_of (group_count ''<20'' users) (length users)),
         (''20-40'', percent_of (group_count ''20-40'' users) (length users)),
         (''40-60'', percent_of (group_count ''40-60'' users) (length users)),
         (''>60'', percent_of (group_count ''>60'' users) (length users))]
        (length users))"
  using fold_count_user [of users 0 0 0 0]
  by (simp add: calculate_def zero_distribution_def percent_of_def Let_def)

lemma group_count_sum:
  "group_count ''<20'' users + group_count ''20-40'' users + group_count ''40-60'' users
     + group_count ''>60'' users
   = length (filter (\<lambda>u. parseInt_column (row_age u) \<noteq> None) users)"
proof (induction users)
  case Nil
  then show ?case by (simp add: group_count_def)
next
  case (Cons u users)
  show ?case
  proof (cases "parseInt_column (row_age u)")
    case None
    then show ?thesis using Cons.IH by (simp add: group_count_def)
  next
    case (Some x)
    from age_group_cases [of x] Some Cons.IH show ?thesis
      by (auto simp: group_count_def)
  qed
qed

lemma age_group_lt20: "age_group (Finite x) = ''<20'' \<longleftrightarrow> x < 20"
  by (simp add: age_group_def js_greater_eq_def)

lemma age_group_20_40: "age_group (Finite x) = ''20-40'' \<longleftrightarrow> 20 \<le> x \<and> x < 40"
  by (simp add: age_group_def js_greater_eq_def)

lemma age_group_40_60: "age_group (Finite x) = ''40-60'' \<longleftrightarrow> 40 \<le> x \<and> x \<le> 60"
  by (simp add: age_group_def js_greater_eq_def)

lemma age_group_gt60: "age_group (Finite x) = ''>60'' \<longleftrightarrow> 60 < x"
  by (simp add: age_group_def js_greater_eq_def)

lemma group_count_integers:
  "group_count g (map (\<lambda>w. \<lparr>row_age = IntCol w\<rparr>) ws)
     = length (filter (\<lambda>w. age_group (Finite (sint w)) = g) ws)"
  by (simp add: group_count_def filter_map comp_def)

lemma counts_integers:
  assumes "ws \<noteq> []"
  shows "counts (calculate (map (\<lambda>w. \<lparr>row_age = IntCol w\<rparr>) ws)) =
     [(''<20'', length (filter (\<lambda>w. sint w < 20) ws)),
      (''20-40'', length (filter (\<lambda>w. 20 \<le> sint w \<and> sint w < 40) ws)),
      (''40-60'', length (filter (\<lambda>w. 40 \<le> sint w \<and> sint w \<le> 60) ws)),
      (''>60'', length (filter (\<lambda>w. 60 < sint w) ws))]"
  using assms
  by (simp add: calculate_eq group_count_integers age_group_lt20 age_group_20_40
      age_group_40_60 age_group_gt60)

text \<open>
  C9. For every integer age \<open>a\<close>, the group is \<open><20\<close> below 20, \<open>20-40\<close> from 20 to
  39, \<open>40-60\<close> from 40 to 60 inclusive, and \<open>>60\<close> above 60. In the result of
  \<open>calculate\<close> on users with integer ages, the count of each group is the number
  of users whose age lies in that range, and nothing else is counted. A single user of
  age 19, 20, 39, 40, 60 or 61 gives the count 1 to \<open><20\<close>, \<open>20-40\<close>, \<open>20-40\<close>,
  \<open>40-60\<close>, \<open>40-60\<close>, \<open>>60\<close> and 0 to the other groups.
\<close>

theorem age_group_boundaries:
  "(a < 20 \<longrightarrow> age_group (Finite a) = ''<20'')
   \<and> (20 \<le> a \<and> a < 40 \<longrightarrow> age_group (Finite a) = ''20-40'')
   \<and> (40 \<le> a \<and> a \<le> 60 \<longrightarrow> age_group (Finite a) = ''40-60'')
   \<and> (60 < a \<longrightarrow> age_group (Finite a) = ''>60'')
   \<and> (ws \<noteq> [] \<longrightarrow>
        counts (calculate (map (\<lambda>w. \<lparr>row_age = IntCol w\<rparr>) ws)) =
          [(''<20'', length (filter (\<lambda>w. sint w < 20) ws)),
           (''20-40'', length (filter (\<lambda>w. 20 \<le> sint w \<and> sint w < 40) ws)),
           (''40-60'', length (filter (\<lambda>w. 40 \<le> sint w \<and> sint w \<le> 60) ws)),
           (''>60'', length (filter (\<lambda>w. 60 < sint w) ws))])
   \<and> map (\<lambda>w. counts (calculate [\<lparr>row_age = IntCol w\<rparr>])) [19, 20, 39, 40, 60, 61] =
        [[(''<20'', 1), (''20-40'', 0), (''40-60'', 0), (''>60'', 0)],
         [(''<20'', 0), (''20-40'', 1), (''40-60'', 0), (''>60'', 0)],
         [(''<20'', 0), (''20-40'', 1), (''40-60'', 0), (''>60'', 0)],
         [(''<20'', 0), (''20-40'', 0), (''40-60'', 1), (''>60'', 0)],
         [(''<20'', 0), (''20-40'', 0), (''40-60'', 1), (''>60'', 0)],
         [(''<20'', 0), (''20-40'', 0), (''40-60'', 0), (''>60'', 1)]]"
proof (intro conjI impI)
  show "map (\<lambda>w. counts (calculate [\<lparr>row_age = IntCol w\<rparr>])) [19, 20, 39, 40, 60, 61] =
        [[(''<20'', 1), (''20-40'', 0), (''40-60'', 0), (''>60'', 0)],
         [(''<20'', 0), (''20-40'', 1), (''40-60'', 0), (''>60'', 0)],
         [(''<20'', 0), (''20-40'', 1), (''40-60'', 0), (''>60'', 0)],
         [(''<20'', 0), (''20-40'', 0), (''40-60'', 1), (''>60'', 0)],
         [(''<20'', 0), (''20-40'', 0), (''40-60'', 1), (''>60'', 0)],
         [(''<20'', 0), (''20-40'', 0), (''40-60'', 0), (''>60'', 1)]]"
    using counts_integers [of "[19]"] counts_integers [of "[20]"] counts_integers [of "[39]"]
      counts_integers [of "[40]"] counts_integers [of "[60]"] counts_integers [of "[61]"]
    by simp
next
  assume "ws \<noteq> []"
  then show "counts (calculate (map (\<lambda>w. \<lparr>row_age = IntCol w\<rparr>) ws)) =
          [(''<20'', length (filter (\<lambda>w. sint w < 20) ws)),
           (''20-40'', length (filter (\<lambda>w. 20 \<le> sint w \<and> sint w < 40) ws)),
           (''40-60'', length (filter (\<lambda>w. 40 \<le> sint w \<and> sint w \<le> 60) ws)),
           (''>60'', length (filter (\<lambda>w. 60 < sint w) ws))]"
    by (rule counts_integers)
qed (simp_all add: age_group_def js_greater_eq_def)

theorem age_group_boundaries_witness:
  "(19::int) < 20 \<and> age_group (Finite 19) = ''<20''
   \<and> (20::int) \<le> 39 \<and> (39::int) < 40 \<and> age_group (Finite 39) = ''20-40''
   \<and> (40::int) \<le> 60 \<and> (60::int) \<le> 60 \<and> age_group (Finite 60) = ''40-60''
   \<and> (60::int) < 61 \<and> age_group (Finite 61) = ''>60''
   \<and> [19, 20, 39, 40, 60, 61 :: 32 word] \<noteq> []
   \<and> counts (calculate (map (\<lambda>w. \<lparr>row_age = IntCol w\<rparr>) [19, 20, 39, 40, 60, 61]))
       = [(''<20'', 1), (''20-40'', 2), (''40-60'', 2), (''>60'', 1)]"
  using age_group_boundaries [of 19 "[19, 20, 39, 40, 60, 61]"] age_group_boundaries [of 39 "[]"]
    age_group_boundaries [of 60 "[]"] age_group_boundaries [of 61 "[]"]
  by simp

text \<open>
  C10. On the empty sequence \<open>calculate\<close> returns the four zero counts themselves; on
  every non-empty sequence it returns the object with \<open>counts\<close>, \<open>percentages\<close> and
  \<open>total\<close>, never the bare counts.
\<close>

theorem calculate_result_shape:
  "calculate [] = Flat [(''<20'', 0), (''20-40'', 0), (''40-60'', 0), (''>60'', 0)]
   \<and> (users \<noteq> [] \<longrightarrow>
        (\<exists>c p t. calculate users = Wrapped c p t) \<and> (\<forall>d. calculate users \<noteq> Flat d))"
  by (simp add: calculate_eq)

theorem calculate_result_shape_witness:
  "[\<lparr>row_age = IntCol 25\<rparr>] \<noteq> []
   \<and> (\<exists>c p t. calculate [\<lparr>row_age = IntCol 25\<rparr>] = Wrapped c p t)
   \<and> (\<forall>d. calculate [\<lparr>row_age = IntCol 25\<rparr>] \<noteq> Flat d)"
  using calculate_result_shape [of "[\<lparr>row_age = IntCol 25\<rparr>]"] by simp

text \<open>
  C4, counterexample. \<open>total\<close> is not the number of users whose age parses: of the two
  users with the ages \<open>"abc"\<close> and 25 one age parses, \<open>total\<close> is 2, and the group
  \<open>20-40\<close>, which holds the one parsed age, has the percentage 50.
\<close>

theorem calculate_total_counterexample:
  "total (calculate [\<lparr>row_age = TextCol ''abc''\<rparr>, \<lparr>row_age = IntCol 25\<rparr>]) = 2
   \<and> length (filter (\<lambda>u. parseInt_column (row_age u) \<noteq> None)
        [\<lparr>row_age = TextCol ''abc''\<rparr>, \<lparr>row_age = IntCol 25\<rparr>]) = 1
   \<and> percentages (calculate [\<lparr>row_age = TextCol ''abc''\<rparr>, \<lparr>row_age = IntCol 25\<rparr>])
       = [(''<20'', 0), (''20-40'', 50), (''40-60'', 0), (''>60'', 0)]"
  by code_simp

text \<open>
  C4, amended. For a non-empty sequence of users, a user whose age does not parse is
  counted in no group, so the four counts add up to the number of users whose age
  parses; \<open>total\<close> is the number of all users, the unparseable ones included, and it is
  the denominator of every percentage.
\<close>

theorem calculate_total:
  "users \<noteq> [] \<Longrightarrow>
   calculate users =
     Wrapped
       [(''<20'', group_count ''<20'' users),
        (''20-40'', group_count ''20-40'' users),
        (''40-60'', group_count ''40-60'' users),
        (''>60'', group_count ''>60'' users)]
       [(''<20'', percent_of (group_count ''<20'' users) (length users)),
        (''20-40'', percent_of (group_count ''20-40'' users) (length users)),
        (''40-60'', percent_of (group_count ''40-60'' users) (length users)),
        (''>60'', percent_of (group_count ''>60'' users) (length users))]
       (length users)
   \<and> group_count ''<20'' users + group_count ''20-40'' users + group_count ''40-60'' users
       + group_count ''>60'' users
     = length (filter (\<lambda>u. parseInt_column (row_age u) \<noteq> None) users)
   \<and> total (calculate users) = length users"
  using group_count_sum [of users] by (simp add: calculate_eq)

theorem calculate_total_witness:
  "[\<lparr>row_age = TextCol ''abc''\<rparr>, \<lparr>row_age = IntCol 25\<rparr>] \<noteq> []
   \<and> total (calculate [\<lparr>row_age = TextCol ''abc''\<rparr>, \<lparr>row_age = IntCol 25\<rparr>]) = 2
   \<and> group_count ''<20'' [\<lparr>row_age = TextCol ''abc''\<rparr>, \<lparr>row_age = IntCol 25\<rparr>]
       + group_count ''20-40'' [\<lparr>row_age = TextCol ''abc''\<rparr>, \<lparr>row_age = IntCol 25\<rparr>]
       + group_count ''40-60'' [\<lparr>row_age = TextCol ''abc''\<rparr>, \<lparr>row_age = IntCol 25\<rparr>]
       + group_count ''>60'' [\<lparr>row_age = TextCol ''abc''\<rparr>, \<lparr>row_age = IntCol 25\<rparr>]
     = length (filter (\<lambda>u. parseInt_column (row_age u) \<noteq> None)
         [\<lparr>row_age = TextCol ''abc''\<rparr>, \<lparr>row_age = IntCol 25\<rparr>])"
  using calculate_total [of "[\<lparr>row_age = TextCol ''abc''\<rparr>, \<lparr>row_age = IntCol 25\<rparr>]"]
  by simp

end
